theory Spec2Isabelle
  imports Complex_Main "HOL-Library.Multiset"
begin

section \<open>Data model of the duplicate detection service\<close>

text \<open>
  The embedding follows \<^verbatim>\<open>src/server/src/services/duplicate.service.ts\<close>.
  Nullable strings (\<^verbatim>\<open>string | null\<close>) are \<open>string option\<close>; the JavaScript
  truthiness test the service applies to them (\<^verbatim>\<open>if (x)\<close>, \<^verbatim>\<open>!x\<close>, \<^verbatim>\<open>!!x\<close>) is
  \<open>truthy\<close>: neither null nor the empty string. The nullish test of \<^verbatim>\<open>??\<close> is a
  case distinction on the option.
\<close>

definition truthy :: "string option \<Rightarrow> bool" where
  "truthy v = (case v of None \<Rightarrow> False | Some s \<Rightarrow> s \<noteq> [])"

datatype JobStatus = SUCCESS | FAILED | SKIPPED

datatype JobName = QUEUE_DUPLICATE_DETECTION | DUPLICATE_DETECTION

text \<open>
  Modelled from the spec: the enum \<^verbatim>\<open>AssetVisibility\<close> (\<^verbatim>\<open>src/enum\<close>) is not among
  the sources. The spec gives its members as normal, hidden and locked; the service
  inspects \<^verbatim>\<open>HIDDEN\<close> and \<^verbatim>\<open>LOCKED\<close> only.
\<close>

datatype AssetVisibility = NORMAL | HIDDEN | LOCKED

text \<open>
  The row \<^verbatim>\<open>getForSearchDuplicatesJob\<close> returns. The field \<^verbatim>\<open>id\<close> is \<open>id'\<close> here
  (\<open>id\<close> is the identity function of HOL); \<^verbatim>\<open>type\<close> is the media kind, an enum of
  strings that the service only passes on.
\<close>

record Asset =
  id' :: string
  type :: string
  ownerId :: string
  duplicateId :: "string option"
  stackId :: "string option"
  visibility :: AssetVisibility
  embedding :: "string option"

text \<open>\<^verbatim>\<open>AssetDuplicateResult\<close> of the search repository: one candidate match.\<close>

record AssetDuplicateResult =
  assetId :: string
  duplicateId :: "string option"
  distance :: real

text \<open>\<^verbatim>\<open>{ name, data: { id } }\<close>; \<open>data\<close> holds the id of the job's asset.\<close>

record JobItem =
  name :: JobName
  data :: string

text \<open>
  The writes the service issues to its repositories, in the order of the calls:
  \<^verbatim>\<open>jobRepository.queueAll(jobs)\<close>,
  \<^verbatim>\<open>duplicateRepository.merge({ targetId, assetIds, sourceIds })\<close>,
  \<^verbatim>\<open>assetRepository.update({ id, duplicateId })\<close> and
  \<^verbatim>\<open>assetRepository.upsertJobStatus(...)\<close> with its
  \<^verbatim>\<open>{ assetId, duplicatesDetectedAt }\<close> arguments.
\<close>

datatype call =
    QueueAll "JobItem list"
  | Merge string "string list" "string list"
  | AssetUpdate string "string option"
  | UpsertJobStatus "(string \<times> nat) list"

datatype log = Error string | Debug string

text \<open>
  What the service reads from its collaborators. \<open>isDuplicateDetectionEnabled\<close> is the
  value of \<^verbatim>\<open>isDuplicateDetectionEnabled(machineLearning)\<close> on the loaded
  configuration (\<^verbatim>\<open>src/utils/misc\<close> is not among the sources), \<open>maxDistance\<close> is
  \<^verbatim>\<open>machineLearning.duplicateDetection.maxDistance\<close>, \<open>JOBS_ASSET_PAGINATION_SIZE\<close>
  the constant of \<^verbatim>\<open>src/constants\<close>, \<open>now\<close> the clock read by \<^verbatim>\<open>new Date()\<close>,
  and \<open>randomUUID\<close> the id the crypto repository hands out. A streamed row of
  \<open>streamForSearchDuplicates\<close> is its id, the one field the service reads;
  \<open>search\<close> takes \<^verbatim>\<open>assetId\<close>, \<^verbatim>\<open>embedding\<close>, \<^verbatim>\<open>maxDistance\<close>, \<^verbatim>\<open>type\<close> and
  \<^verbatim>\<open>userIds\<close>.
\<close>

record Repos =
  isDuplicateDetectionEnabled :: bool
  maxDistance :: real
  JOBS_ASSET_PAGINATION_SIZE :: nat
  now :: nat
  randomUUID :: string
  streamForSearchDuplicates :: "bool \<Rightarrow> string list"
  getForSearchDuplicatesJob :: "string \<Rightarrow> Asset option"
  search :: "string \<Rightarrow> string \<Rightarrow> real \<Rightarrow> string \<Rightarrow> string list \<Rightarrow> AssetDuplicateResult list"

section \<open>Template strings of the log messages\<close>

definition digit :: "nat \<Rightarrow> char" where
  "digit n = char_of (48 + n)"

function string_of_nat :: "nat \<Rightarrow> string" where
  "string_of_nat n =
     (if n < 10 then [digit n] else string_of_nat (n div 10) @ [digit (n mod 10)])"
  by pat_completeness auto
termination
  by (relation "measure (\<lambda>n. n)") auto

section \<open>Scan-all: \<^verbatim>\<open>handleQueueSearchDuplicates\<close>\<close>

text \<open>
  The \<^verbatim>\<open>for await\<close> loop over the stream, with the local \<^verbatim>\<open>jobs\<close> as an
  argument: each asset is pushed, and the batch is submitted and reset once its
  length reaches the threshold. The result is the batch left after the loop and the
  submissions made in it.
\<close>

fun queue_loop :: "nat \<Rightarrow> string list \<Rightarrow> JobItem list \<Rightarrow> JobItem list \<times> call list" where
  "queue_loop k [] jobs = (jobs, [])"
| "queue_loop k (a # as) jobs =
     (let jobs1 = jobs @ [\<lparr>name = DUPLICATE_DETECTION, data = a\<rparr>]
      in if length jobs1 \<ge> k
         then (case queue_loop k as [] of (rest, cs) \<Rightarrow> (rest, QueueAll jobs1 # cs))
         else queue_loop k as jobs1)"

definition handleQueueSearchDuplicates :: "Repos \<Rightarrow> bool \<Rightarrow> JobStatus \<times> call list" where
  "handleQueueSearchDuplicates env force =
     (if \<not> isDuplicateDetectionEnabled env then (SKIPPED, [])
      else
        (case queue_loop (JOBS_ASSET_PAGINATION_SIZE env) (streamForSearchDuplicates env force) [] of
           (jobs, cs) \<Rightarrow> (SUCCESS, cs @ [QueueAll jobs])))"

section \<open>Scan-one: \<^verbatim>\<open>handleSearchDuplicates\<close> and \<^verbatim>\<open>updateDuplicates\<close>\<close>

text \<open>
  \<^verbatim>\<open>[...new Set(xs)]\<close>: a JavaScript \<^verbatim>\<open>Set\<close> keeps insertion order, and adding a
  value it already holds changes nothing.
\<close>

definition set_add :: "string list \<Rightarrow> string \<Rightarrow> string list" where
  "set_add s x = (if x \<in> set s then s else s @ [x])"

definition new_Set :: "string list \<Rightarrow> string list" where
  "new_Set xs = foldl set_add [] xs"

text \<open>\<^verbatim>\<open>Array.prototype.shift\<close>: the first element, if any, and the array left.\<close>

fun shift :: "string list \<Rightarrow> string option \<times> string list" where
  "shift [] = (None, [])"
| "shift (d # ds) = (Some d, ds)"

text \<open>
  \<^verbatim>\<open>updateDuplicates\<close>. The filter keeps the candidates with a truthy
  \<^verbatim>\<open>duplicateId\<close>, so \<open>the\<close> is applied to \<open>Some\<close> only. In
  \<^verbatim>\<open>asset.duplicateId ?? duplicateIds.shift() ?? randomUUID()\<close> the operands to the
  right of a \<^verbatim>\<open>??\<close> are evaluated only when the left one is null: \<^verbatim>\<open>shift\<close>
  removes the head of \<^verbatim>\<open>duplicateIds\<close> only when the asset has no
  \<^verbatim>\<open>duplicateId\<close>. The result is the returned array and the merge call.
\<close>

definition updateDuplicates ::
  "Repos \<Rightarrow> Asset \<Rightarrow> AssetDuplicateResult list \<Rightarrow> string list \<times> call list" where
  "updateDuplicates env asset duplicateAssets =
     (let duplicateIds =
            new_Set (map (\<lambda>d. the (AssetDuplicateResult.duplicateId d))
              (filter (\<lambda>a. truthy (AssetDuplicateResult.duplicateId a)) duplicateAssets));
          (targetDuplicateId, sourceIds) =
            (case Asset.duplicateId asset of
               Some g \<Rightarrow> (g, duplicateIds)
             | None \<Rightarrow>
                 (case shift duplicateIds of
                    (Some d, ds) \<Rightarrow> (d, ds)
                  | (None, ds) \<Rightarrow> (randomUUID env, ds)));
          assetIdsToUpdate =
            map assetId
              (filter (\<lambda>a. AssetDuplicateResult.duplicateId a \<noteq> Some targetDuplicateId)
                 duplicateAssets)
            @ [id' asset]
      in (assetIdsToUpdate, [Merge targetDuplicateId assetIdsToUpdate sourceIds]))"

definition stamp :: "Repos \<Rightarrow> string list \<Rightarrow> call" where
  "stamp env assetIds = UpsertJobStatus (map (\<lambda>a. (a, now env)) assetIds)"

definition found_message :: "nat \<Rightarrow> string \<Rightarrow> string" where
  "found_message n i =
     ''Found '' @ string_of_nat n @ '' duplicate'' @ (if n = 1 then '''' else ''s'')
       @ '' for asset '' @ i"

text \<open>
  \<^verbatim>\<open>handleSearchDuplicates\<close>: the status returned, the repository writes in call
  order, and the log lines.
\<close>

definition handleSearchDuplicates :: "Repos \<Rightarrow> string \<Rightarrow> JobStatus \<times> call list \<times> log list" where
  "handleSearchDuplicates env i =
     (if \<not> isDuplicateDetectionEnabled env then (SKIPPED, [], [])
      else
        (case getForSearchDuplicatesJob env i of
           None \<Rightarrow> (FAILED, [], [Error (''Asset '' @ i @ '' not found'')])
         | Some asset \<Rightarrow>
             if truthy (stackId asset)
             then (SKIPPED, [], [Debug (''Asset '' @ i @ '' is part of a stack, skipping'')])
             else if visibility asset = HIDDEN
             then (SKIPPED, [], [Debug (''Asset '' @ i @ '' is not visible, skipping'')])
             else if visibility asset = LOCKED
             then (SKIPPED, [], [Debug (''Asset '' @ i @ '' is locked, skipping'')])
             else if \<not> truthy (embedding asset)
             then (FAILED, [], [Debug (''Asset '' @ i @ '' is missing embedding'')])
             else
               (let duplicateAssets =
                      search env (id' asset) (the (embedding asset)) (maxDistance env)
                        (type asset) [ownerId asset]
                in if length duplicateAssets > 0
                   then
                     (case updateDuplicates env asset duplicateAssets of
                        (assetIds, cs) \<Rightarrow>
                          (SUCCESS, cs @ [stamp env assetIds],
                           [Debug (found_message (length duplicateAssets) (id' asset))]))
                   else if truthy (Asset.duplicateId asset)
                   then
                     (SUCCESS,
                      [AssetUpdate (id' asset) None, stamp env [id' asset]],
                      [Debug (''No duplicates found for asset '' @ id' asset
                                @ '', removing duplicateId'')])
                   else (SUCCESS, [stamp env [id' asset]], []))))"

section \<open>Reading a run\<close>

definition status_of :: "JobStatus \<times> call list \<times> log list \<Rightarrow> JobStatus" where
  "status_of r = fst r"

definition calls_of :: "JobStatus \<times> call list \<times> log list \<Rightarrow> call list" where
  "calls_of r = fst (snd r)"

definition logs_of :: "JobStatus \<times> call list \<times> log list \<Rightarrow> log list" where
  "logs_of r = snd (snd r)"

text \<open>The merge operations among the calls, as (target, asset ids, source ids).\<close>

fun merges :: "call list \<Rightarrow> (string \<times> string list \<times> string list) list" where
  "merges [] = []"
| "merges (Merge t as ss # cs) = (t, as, ss) # merges cs"
| "merges (c # cs) = merges cs"

text \<open>The batches submitted to the job queue.\<close>

fun batches :: "call list \<Rightarrow> JobItem list list" where
  "batches [] = []"
| "batches (QueueAll js # cs) = js # batches cs"
| "batches (c # cs) = batches cs"

text \<open>The calls that change group membership: merges and asset updates.\<close>

fun is_mutation :: "call \<Rightarrow> bool" where
  "is_mutation (Merge t as ss) = True"
| "is_mutation (AssetUpdate a d) = True"
| "is_mutation c = False"

text \<open>The calls that set the \<^verbatim>\<open>duplicateId\<close> of one asset: the asset updates.\<close>

fun is_update :: "call \<Rightarrow> bool" where
  "is_update (AssetUpdate a d) = True"
| "is_update c = False"

section \<open>Runs that reach the similarity search\<close>

text \<open>
  \<open>scans env i a cs\<close>: the run of scan-one on \<open>i\<close> finds the feature enabled, loads
  the asset \<open>a\<close>, passes the stack, visibility and embedding checks, and the
  similarity search returns the candidates \<open>cs\<close>.
\<close>

definition scans :: "Repos \<Rightarrow> string \<Rightarrow> Asset \<Rightarrow> AssetDuplicateResult list \<Rightarrow> bool" where
  "scans env i a cs \<longleftrightarrow>
     isDuplicateDetectionEnabled env \<and> getForSearchDuplicatesJob env i = Some a \<and>
     \<not> truthy (stackId a) \<and> visibility a \<noteq> HIDDEN \<and> visibility a \<noteq> LOCKED \<and>
     truthy (embedding a) \<and>
     search env (id' a) (the (embedding a)) (maxDistance env) (type a) [ownerId a] = cs"

text \<open>
  The specification's words: the non-null group ids referenced among the candidates,
  in discovery order (repetitions kept).
\<close>

definition nonnull_ids :: "AssetDuplicateResult list \<Rightarrow> string list" where
  "nonnull_ids cs =
     concat (map (\<lambda>c. case AssetDuplicateResult.duplicateId c of None \<Rightarrow> [] | Some d \<Rightarrow> [d]) cs)"

text \<open>
  Group ids are unique tokens (UUIDs), never the empty string: no candidate carries
  the empty string as its group id.
\<close>

definition nonempty_ids :: "AssetDuplicateResult list \<Rightarrow> bool" where
  "nonempty_ids cs = list_all (\<lambda>c. AssetDuplicateResult.duplicateId c \<noteq> Some []) cs"

text \<open>The array \<^verbatim>\<open>updateDuplicates\<close> hands to \<^verbatim>\<open>new Set\<close>.\<close>

definition truthy_ids :: "AssetDuplicateResult list \<Rightarrow> string list" where
  "truthy_ids cs =
     map (\<lambda>d. the (AssetDuplicateResult.duplicateId d))
       (filter (\<lambda>a. truthy (AssetDuplicateResult.duplicateId a)) cs)"

text \<open>The job descriptor scan-all pushes for an asset id.\<close>

definition job :: "string \<Rightarrow> JobItem" where
  "job a = \<lparr>name = DUPLICATE_DETECTION, data = a\<rparr>"

text \<open>The checks before the search depend on the flag and on the loaded asset.\<close>

definition gate :: "Repos \<Rightarrow> Asset option \<Rightarrow> bool" where
  "gate env ao \<longleftrightarrow>
     isDuplicateDetectionEnabled env \<and>
     (case ao of
        None \<Rightarrow> False
      | Some a \<Rightarrow>
          \<not> truthy (stackId a) \<and> visibility a \<noteq> HIDDEN \<and> visibility a \<noteq> LOCKED \<and>
          truthy (embedding a))"

section \<open>The store behind the repositories\<close>

text \<open>
  The repositories themselves are not among the sources; the store is modelled from
  the specification's description of their interface. A store holds the asset rows by
  id and the per-asset scan bookkeeping.
\<close>

record Store =
  assets :: "string \<rightharpoonup> Asset"
  duplicatesDetectedAt :: "string \<rightharpoonup> nat"

definition in_groups :: "string list \<Rightarrow> Asset \<Rightarrow> bool" where
  "in_groups sourceIds r =
     (case Asset.duplicateId r of None \<Rightarrow> False | Some g \<Rightarrow> g \<in> set sourceIds)"

text \<open>
  Modelled from the spec: \<^verbatim>\<open>duplicateRepository.merge\<close> is not among the sources.
  ``Issue one merge operation to the Duplicate Store: target group id, the full list
  of asset ids to (re)assign to it, and the list of source group ids being folded in'',
  ``every asset currently in a source group must be reassigned to the target group''.
  A group is the set of rows that carry its id, so a source group is retired once its
  rows are reassigned.
\<close>

definition merge :: "Store \<Rightarrow> string \<Rightarrow> string list \<Rightarrow> string list \<Rightarrow> Store" where
  "merge s targetId assetIds sourceIds =
     s\<lparr>assets := (\<lambda>k. case assets s k of
                       None \<Rightarrow> None
                     | Some r \<Rightarrow>
                         if k \<in> set assetIds \<or> in_groups sourceIds r
                         then Some (r\<lparr>Asset.duplicateId := Some targetId\<rparr>)
                         else Some r)\<rparr>"

text \<open>
  Modelled from the spec: \<^verbatim>\<open>assetRepository.update\<close> is not among the sources. The
  service calls it with \<^verbatim>\<open>{ id, duplicateId: null }\<close>, the specification's
  \<^verbatim>\<open>clearGroup(assetId)\<close>: the row of that id gets the given group id, no other row
  changes.
\<close>

definition update :: "Store \<Rightarrow> string \<Rightarrow> string option \<Rightarrow> Store" where
  "update s i d =
     s\<lparr>assets := (\<lambda>k. if k = i
                     then map_option (\<lambda>r. r\<lparr>Asset.duplicateId := d\<rparr>) (assets s k)
                     else assets s k)\<rparr>"

text \<open>
  Modelled from the spec: \<^verbatim>\<open>assetRepository.upsertJobStatus\<close> is not among the
  sources; \<^verbatim>\<open>stampScanned(assetId, timestamp)\<close>, batched over the ids, records when
  detection last ran and touches no group id.
\<close>

definition upsertJobStatus :: "Store \<Rightarrow> (string \<times> nat) list \<Rightarrow> Store" where
  "upsertJobStatus s xs =
     s\<lparr>duplicatesDetectedAt := foldl (\<lambda>m (a, t). m(a \<mapsto> t)) (duplicatesDetectedAt s) xs\<rparr>"

text \<open>The effect of a call on the store; the job queue is not part of it.\<close>

fun apply_call :: "Store \<Rightarrow> call \<Rightarrow> Store" where
  "apply_call s (Merge t as ss) = merge s t as ss"
| "apply_call s (AssetUpdate i d) = update s i d"
| "apply_call s (UpsertJobStatus xs) = upsertJobStatus s xs"
| "apply_call s (QueueAll js) = s"

text \<open>
  Modelled from the spec: \<^verbatim>\<open>assetJobRepository.getForSearchDuplicatesJob\<close> is not
  among the sources; \<^verbatim>\<open>loadForDetection(id)\<close> is the row of that id, if any. The id
  is the key of the row.
\<close>

definition find_row :: "Store \<Rightarrow> string \<Rightarrow> Asset option" where
  "find_row s k = map_option (\<lambda>r. r\<lparr>id' := k\<rparr>) (assets s k)"

text \<open>
  Modelled from the spec: \<^verbatim>\<open>duplicateRepository.search\<close> is not among the sources.
  Similarity Search ``returns candidate matches with their current duplicate-group id
  (if any)'': which assets are near which embedding is a parameter (a list of asset
  ids with distances, fixed by the embeddings), and each match carries the group id
  its row holds in the store at the time of the query.
\<close>

definition candidate :: "Store \<Rightarrow> string \<times> real \<Rightarrow> AssetDuplicateResult option" where
  "candidate s kd =
     map_option
       (\<lambda>r. \<lparr>assetId = fst kd, duplicateId = Asset.duplicateId r, distance = snd kd\<rparr>)
       (assets s (fst kd))"

type_synonym similarity =
  "string \<Rightarrow> string \<Rightarrow> real \<Rightarrow> string \<Rightarrow> string list \<Rightarrow> (string \<times> real) list"

definition store_repos :: "Repos \<Rightarrow> similarity \<Rightarrow> Store \<Rightarrow> Repos" where
  "store_repos base similar s =
     base\<lparr>getForSearchDuplicatesJob := find_row s,
          search := (\<lambda>i e m t us. List.map_filter (candidate s) (similar i e m t us))\<rparr>"

text \<open>
  One run of scan-one against the store: the service reads through the repositories
  of the store, and its calls are applied in order.
\<close>

definition scan_one :: "Repos \<Rightarrow> similarity \<Rightarrow> Store \<Rightarrow> string \<Rightarrow> JobStatus \<times> Store" where
  "scan_one base similar s i =
     (let r = handleSearchDuplicates (store_repos base similar s) i
      in (status_of r, foldl apply_call s (calls_of r)))"

text \<open>
  Modelled from the spec: the second reading of ``unchanged candidate data'' for the
  search, which is not among the sources. The search hands back a given candidate
  list as it is, whatever group ids the store holds by then.
\<close>

definition fixed_repos :: "Repos \<Rightarrow> AssetDuplicateResult list \<Rightarrow> Store \<Rightarrow> Repos" where
  "fixed_repos base cs s =
     base\<lparr>getForSearchDuplicatesJob := find_row s, search := (\<lambda>i e m t us. cs)\<rparr>"

definition scan_one_fixed ::
  "Repos \<Rightarrow> AssetDuplicateResult list \<Rightarrow> Store \<Rightarrow> string \<Rightarrow> JobStatus \<times> Store" where
  "scan_one_fixed base cs s i =
     (let r = handleSearchDuplicates (fixed_repos base cs s) i
      in (status_of r, foldl apply_call s (calls_of r)))"

text \<open>The calls of such a run, in both readings.\<close>

definition calls_one :: "Repos \<Rightarrow> similarity \<Rightarrow> Store \<Rightarrow> string \<Rightarrow> call list" where
  "calls_one base similar s i = calls_of (handleSearchDuplicates (store_repos base similar s) i)"

definition calls_one_fixed ::
  "Repos \<Rightarrow> AssetDuplicateResult list \<Rightarrow> Store \<Rightarrow> string \<Rightarrow> call list" where
  "calls_one_fixed base cs s i = calls_of (handleSearchDuplicates (fixed_repos base cs s) i)"

text \<open>
  A later run sees the same configuration and the same similarity data; the clock
  and the id the crypto repository would hand out have moved on.
\<close>

definition again :: "Repos \<Rightarrow> nat \<Rightarrow> string \<Rightarrow> Repos" where
  "again base t u = base\<lparr>now := t, randomUUID := u\<rparr>"

section \<open>Sample data\<close>

definition sample_asset :: "string option \<Rightarrow> string option \<Rightarrow> Asset" where
  "sample_asset d e =
     \<lparr>id' = ''A'', type = ''IMAGE'', ownerId = ''owner'', duplicateId = d, stackId = None,
      visibility = NORMAL, embedding = e\<rparr>"

definition sample_candidate :: "string \<Rightarrow> string option \<Rightarrow> AssetDuplicateResult" where
  "sample_candidate a d = \<lparr>assetId = a, duplicateId = d, distance = 0\<rparr>"

definition sample_repos :: "bool \<Rightarrow> string list \<Rightarrow> Asset \<Rightarrow> AssetDuplicateResult list \<Rightarrow> Repos" where
  "sample_repos enabled stream a cs =
     \<lparr>isDuplicateDetectionEnabled = enabled, maxDistance = 0, JOBS_ASSET_PAGINATION_SIZE = 2,
      now = 7, randomUUID = ''U1'', streamForSearchDuplicates = (\<lambda>force. stream),
      getForSearchDuplicatesJob = (\<lambda>i. if i = ''A'' then Some a else None),
      search = (\<lambda>i e m t us. cs)\<rparr>"

definition sample_candidates :: "AssetDuplicateResult list" where
  "sample_candidates =
     [sample_candidate ''B'' None, sample_candidate ''C'' (Some ''G1''),
      sample_candidate ''D'' (Some ''G2''), sample_candidate ''E'' (Some ''G1'')]"

definition sample_store :: "string option \<Rightarrow> Store" where
  "sample_store d =
     \<lparr>assets = (\<lambda>k. if k = ''A'' then Some (sample_asset d (Some ''e''))
                    else if k = ''B'' then Some ((sample_asset d (Some ''f''))\<lparr>id' := ''B''\<rparr>)
                    else None),
      duplicatesDetectedAt = (\<lambda>k. None)\<rparr>"

definition sample_similar :: similarity where
  "sample_similar i e m t us = (if i = ''A'' then [(''B'', 0)] else [])"

section \<open>The insertion-ordered set\<close>

lemma set_add_in: "x \<in> set s \<Longrightarrow> set_add s x = s"
  by (simp add: set_add_def)

lemma set_add_notin: "x \<notin> set s \<Longrightarrow> set_add s x = s @ [x]"
  by (simp add: set_add_def)

lemma foldl_set_add_set: "set (foldl set_add acc xs) = set acc \<union> set xs"
  by (induction xs arbitrary: acc) (auto simp: set_add_def)

lemma foldl_set_add_distinct: "distinct acc \<Longrightarrow> distinct (foldl set_add acc xs)"
  by (induction xs arbitrary: acc) (auto simp: set_add_def)

lemma foldl_set_add_prefix: "\<exists>ys. foldl set_add acc xs = acc @ ys"
proof (induction xs arbitrary: acc)
  case Nil
  show ?case by simp
next
  case (Cons x xs)
  obtain ys where ys: "foldl set_add (set_add acc x) xs = set_add acc x @ ys"
    using Cons.IH by blast
  show ?case
  proof (cases "x \<in> set acc")
    case True
    with ys show ?thesis by (simp add: set_add_in)
  next
    case False
    with ys show ?thesis by (simp add: set_add_notin)
  qed
qed

lemma new_Set_set: "set (new_Set xs) = set xs"
  by (simp add: new_Set_def foldl_set_add_set)

lemma new_Set_distinct: "distinct (new_Set xs)"
  by (simp add: new_Set_def foldl_set_add_distinct)

lemma new_Set_Nil: "new_Set [] = []"
  by (simp add: new_Set_def)

lemma new_Set_Cons: "\<exists>ys. new_Set (x # xs) = x # ys"
  using foldl_set_add_prefix [of "[x]" xs] by (simp add: new_Set_def set_add_def)

lemma new_Set_head:
  "(case new_Set xs of [] \<Rightarrow> u | d # ds \<Rightarrow> d) = (case xs of [] \<Rightarrow> u | d # ds \<Rightarrow> d)"
proof (cases xs)
  case Nil
  then show ?thesis by (simp add: new_Set_Nil)
next
  case (Cons x xs')
  then show ?thesis using new_Set_Cons [of x xs'] by auto
qed

lemma truthy_ids_nonnull: "nonempty_ids cs \<Longrightarrow> truthy_ids cs = nonnull_ids cs"
  by (induction cs)
     (auto simp: nonempty_ids_def truthy_ids_def nonnull_ids_def truthy_def split: option.splits)

section \<open>The paths of scan-one\<close>

lemma updateDuplicates_eq:
  "updateDuplicates env a cs =
     (let T = (case Asset.duplicateId a of
                 Some g \<Rightarrow> g
               | None \<Rightarrow> (case new_Set (truthy_ids cs) of [] \<Rightarrow> randomUUID env | d # ds \<Rightarrow> d));
          ids = map assetId (filter (\<lambda>c. AssetDuplicateResult.duplicateId c \<noteq> Some T) cs)
                  @ [id' a]
      in (ids, [Merge T ids
                 (case Asset.duplicateId a of
                    Some g \<Rightarrow> new_Set (truthy_ids cs)
                  | None \<Rightarrow> tl (new_Set (truthy_ids cs)))]))"
  by (cases "new_Set (truthy_ids cs)")
     (simp_all add: updateDuplicates_def truthy_ids_def Let_def split: option.splits)

lemma scan_with_candidates:
  assumes "scans env i a cs" and "cs \<noteq> []"
  shows "handleSearchDuplicates env i =
     (SUCCESS, snd (updateDuplicates env a cs) @ [stamp env (fst (updateDuplicates env a cs))],
      [Debug (found_message (length cs) (id' a))])"
  using assms by (simp add: handleSearchDuplicates_def scans_def Let_def split: prod.splits)

lemma scan_no_candidates:
  assumes "scans env i a []"
  shows "handleSearchDuplicates env i =
     (if truthy (Asset.duplicateId a)
      then (SUCCESS, [AssetUpdate (id' a) None, stamp env [id' a]],
            [Debug (''No duplicates found for asset '' @ id' a @ '', removing duplicateId'')])
      else (SUCCESS, [stamp env [id' a]], []))"
  using assms by (simp add: handleSearchDuplicates_def scans_def Let_def)

lemma merges_scan:
  assumes "scans env i a cs" and "cs \<noteq> []"
  shows "merges (calls_of (handleSearchDuplicates env i)) =
     (let T = (case Asset.duplicateId a of
                 Some g \<Rightarrow> g
               | None \<Rightarrow> (case new_Set (truthy_ids cs) of [] \<Rightarrow> randomUUID env | d # ds \<Rightarrow> d))
      in [(T,
           map assetId (filter (\<lambda>c. AssetDuplicateResult.duplicateId c \<noteq> Some T) cs) @ [id' a],
           (case Asset.duplicateId a of
              Some g \<Rightarrow> new_Set (truthy_ids cs)
            | None \<Rightarrow> tl (new_Set (truthy_ids cs))))])"
  by (simp add: scan_with_candidates [OF assms] calls_of_def updateDuplicates_eq Let_def stamp_def)

lemma update_calls:
  assumes "scans env i a cs" and "cs \<noteq> []"
  shows "\<exists>T ids srcs.
     calls_of (handleSearchDuplicates env i) = [Merge T ids srcs, stamp env ids] \<and>
     status_of (handleSearchDuplicates env i) = SUCCESS \<and>
     id' a \<in> set ids \<and>
     (\<forall>c\<in>set cs. AssetDuplicateResult.duplicateId c \<noteq> Some T \<longrightarrow> assetId c \<in> set ids) \<and>
     (\<forall>g. Asset.duplicateId a = Some g \<longrightarrow>
        T = g \<and>
        ids = map assetId (filter (\<lambda>c. AssetDuplicateResult.duplicateId c \<noteq> Some g) cs)
                @ [id' a] \<and>
        set srcs = set (truthy_ids cs))"
  by (auto simp add: scan_with_candidates [OF assms] calls_of_def status_of_def
      updateDuplicates_eq Let_def new_Set_set)

lemma not_gate:
  "\<not> gate env (getForSearchDuplicatesJob env i) \<Longrightarrow>
   calls_of (handleSearchDuplicates env i) = [] \<and>
   status_of (handleSearchDuplicates env i) =
     (if \<not> isDuplicateDetectionEnabled env then SKIPPED
      else case getForSearchDuplicatesJob env i of
             None \<Rightarrow> FAILED
           | Some a \<Rightarrow>
               if truthy (stackId a) \<or> visibility a = HIDDEN \<or> visibility a = LOCKED
               then SKIPPED else FAILED)"
  by (auto simp add: gate_def handleSearchDuplicates_def calls_of_def status_of_def
      split: option.splits)

lemma gate_scans:
  "gate env (getForSearchDuplicatesJob env i) \<Longrightarrow>
   \<exists>a. getForSearchDuplicatesJob env i = Some a \<and>
       scans env i a
         (search env (id' a) (the (embedding a)) (maxDistance env) (type a) [ownerId a])"
  by (auto simp add: gate_def scans_def split: option.splits)

section \<open>The store\<close>

lemma assets_upsert [simp]: "assets (upsertJobStatus s xs) = assets s"
  by (simp add: upsertJobStatus_def)

lemma assets_merge:
  "assets (merge s T ids srcs) k =
     (case assets s k of
        None \<Rightarrow> None
      | Some r \<Rightarrow>
          if k \<in> set ids \<or> in_groups srcs r
          then Some (r\<lparr>Asset.duplicateId := Some T\<rparr>) else Some r)"
  by (simp add: merge_def)

lemma assets_update:
  "assets (update s i d) k =
     (if k = i then map_option (\<lambda>r. r\<lparr>Asset.duplicateId := d\<rparr>) (assets s k) else assets s k)"
  by (simp add: update_def)

lemma map_filter_Nil_iff: "List.map_filter f l = [] \<longleftrightarrow> (\<forall>x\<in>set l. f x = None)"
  by (induction l) (auto simp: List.map_filter_simps split: option.splits)

lemma map_filter_map_option:
  "(\<forall>x\<in>set l. f' x = map_option h (f x)) \<Longrightarrow>
   List.map_filter f' l = map h (List.map_filter f l)"
  by (induction l) (auto simp: List.map_filter_simps split: option.splits)

lemma map_filter_mem:
  "c \<in> set (List.map_filter f l) \<longleftrightarrow> (\<exists>x\<in>set l. f x = Some c)"
  by (induction l) (auto simp: List.map_filter_simps split: option.splits)

lemma truthy_ids_regrouped:
  "set (truthy_ids (map (\<lambda>c. c\<lparr>AssetDuplicateResult.duplicateId := Some T\<rparr>) cs)) \<subseteq> {T}"
  by (auto simp add: truthy_ids_def)

lemma scans_store:
  "scans (store_repos base similar s) i a cs \<longleftrightarrow>
     isDuplicateDetectionEnabled base \<and> find_row s i = Some a \<and>
     \<not> truthy (stackId a) \<and> visibility a \<noteq> HIDDEN \<and> visibility a \<noteq> LOCKED \<and>
     truthy (embedding a) \<and>
     List.map_filter (candidate s)
       (similar (id' a) (the (embedding a)) (maxDistance base) (type a) [ownerId a]) = cs"
  by (simp add: scans_def store_repos_def)

lemma scan_no_calls:
  "calls_of (handleSearchDuplicates (store_repos base similar s) i) = [] \<Longrightarrow>
   scan_one base similar s i =
     (status_of (handleSearchDuplicates (store_repos base similar s) i), s)"
  by (simp add: scan_one_def Let_def)

lemma reads_assets_only:
  assumes "assets s1 = assets s"
  shows "store_repos (again base t u) similar s1 = again (store_repos base similar s) t u"
proof -
  have "find_row s1 = find_row s"
    by (rule ext) (simp add: find_row_def assms)
  moreover have "candidate s1 = candidate s"
    by (rule ext) (simp add: candidate_def assms)
  ultimately show ?thesis by (simp add: store_repos_def again_def)
qed

lemma scans_fixed:
  "scans (fixed_repos base cs s) i a cs' \<longleftrightarrow>
     isDuplicateDetectionEnabled base \<and> find_row s i = Some a \<and>
     \<not> truthy (stackId a) \<and> visibility a \<noteq> HIDDEN \<and> visibility a \<noteq> LOCKED \<and>
     truthy (embedding a) \<and> cs = cs'"
  by (simp add: scans_def fixed_repos_def)

lemma calls_scan:
  assumes "scans env i a cs" and "cs \<noteq> []"
  shows "calls_of (handleSearchDuplicates env i) =
     (let T = (case Asset.duplicateId a of
                 Some g \<Rightarrow> g
               | None \<Rightarrow> (case new_Set (truthy_ids cs) of [] \<Rightarrow> randomUUID env | d # ds \<Rightarrow> d));
          ids = map assetId (filter (\<lambda>c. AssetDuplicateResult.duplicateId c \<noteq> Some T) cs)
                  @ [id' a]
      in [Merge T ids
            (case Asset.duplicateId a of
               Some g \<Rightarrow> new_Set (truthy_ids cs)
             | None \<Rightarrow> tl (new_Set (truthy_ids cs))),
          stamp env ids])"
  by (simp add: scan_with_candidates [OF assms] calls_of_def updateDuplicates_eq Let_def)

lemma status_scan:
  assumes "scans env i a cs"
  shows "status_of (handleSearchDuplicates env i) = SUCCESS"
proof (cases "cs = []")
  case True
  with assms show ?thesis by (simp add: scan_no_candidates status_of_def)
next
  case False
  with assms show ?thesis by (simp add: scan_with_candidates status_of_def)
qed

lemma sources_cover:
  "set (new_Set xs) \<subseteq>
     set (case own of Some g \<Rightarrow> new_Set xs | None \<Rightarrow> tl (new_Set xs))
     \<union> {case own of Some g \<Rightarrow> g | None \<Rightarrow> (case new_Set xs of [] \<Rightarrow> u | d # ds \<Rightarrow> d)}"
  by (cases own; cases "new_Set xs") auto

lemma fixed_reads_assets_only:
  assumes "assets s1 = assets s"
  shows "fixed_repos (again base t u) cs s1 = again (fixed_repos base cs s) t u"
proof -
  have "find_row s1 = find_row s"
    by (rule ext) (simp add: find_row_def assms)
  then show ?thesis by (simp add: fixed_repos_def again_def)
qed

section \<open>The merge issued by scan-one\<close>

text \<open>
  Claim C1. In a run of scan-one whose similarity search returns a non-empty
  candidate list, exactly one merge is issued, and its target is the scanned asset's
  own \<^verbatim>\<open>duplicateId\<close> when that is not null (whatever group ids the candidates
  reference); otherwise the first non-null candidate \<^verbatim>\<open>duplicateId\<close> in discovery
  order, when there is one; otherwise the id handed out by \<^verbatim>\<open>randomUUID\<close>. Group
  ids are non-empty strings.
\<close>

theorem merge_target_precedence:
  assumes "scans env i a cs" and "cs \<noteq> []" and "nonempty_ids cs"
  shows "map fst (merges (calls_of (handleSearchDuplicates env i))) =
     [case Asset.duplicateId a of
        Some g \<Rightarrow> g
      | None \<Rightarrow> (case nonnull_ids cs of d # ds \<Rightarrow> d | [] \<Rightarrow> randomUUID env)]"
proof -
  have "(case new_Set (truthy_ids cs) of [] \<Rightarrow> randomUUID env | d # ds \<Rightarrow> d) =
        (case nonnull_ids cs of d # ds \<Rightarrow> d | [] \<Rightarrow> randomUUID env)"
    using new_Set_head [of "randomUUID env" "truthy_ids cs"] truthy_ids_nonnull [OF assms(3)]
    by (simp split: list.splits)
  then show ?thesis
    by (cases "Asset.duplicateId a") (simp_all add: merges_scan [OF assms(1,2)] Let_def)
qed

theorem merge_target_precedence_witness:
  "scans (sample_repos True [] (sample_asset None (Some ''e'')) sample_candidates) ''A''
     (sample_asset None (Some ''e'')) sample_candidates \<and>
   nonempty_ids sample_candidates \<and>
   map fst (merges (calls_of (handleSearchDuplicates
     (sample_repos True [] (sample_asset None (Some ''e'')) sample_candidates) ''A''))) = [''G1'']"
proof -
  let ?a = "sample_asset None (Some ''e'')"
  let ?env = "sample_repos True [] ?a sample_candidates"
  have s: "scans ?env ''A'' ?a sample_candidates"
    by (simp add: scans_def sample_repos_def sample_asset_def truthy_def)
  have n: "sample_candidates \<noteq> []"
    by (simp add: sample_candidates_def)
  have w: "nonempty_ids sample_candidates"
    by (simp add: nonempty_ids_def sample_candidates_def sample_candidate_def)
  have "nonnull_ids sample_candidates = [''G1'', ''G2'', ''G1'']"
    by (simp add: nonnull_ids_def sample_candidates_def sample_candidate_def)
  with merge_target_precedence [OF s n w] s w show ?thesis
    by (simp add: sample_asset_def)
qed

text \<open>
  Claim C2. The source list of a merge is to hold exactly the distinct non-null
  candidate group ids other than the target, never the target itself, also when the
  scanned asset's own \<^verbatim>\<open>duplicateId\<close> is the target and candidates reference that
  group. The code does not keep to it on that path: for asset \<open>A\<close> of group \<open>G\<close> with
  the one candidate \<open>B\<close> of group \<open>G\<close>, the candidate group ids other than the target
  are none, and the merge into \<open>G\<close> is issued with the source list \<open>[G]\<close>.
\<close>

theorem source_ids_hold_own_target:
  "merges (calls_of (handleSearchDuplicates
     (sample_repos True [] (sample_asset (Some ''G'') (Some ''e''))
        [sample_candidate ''B'' (Some ''G'')]) ''A'')) =
   [(''G'', [''A''], [''G''])] \<and>
   set (nonnull_ids [sample_candidate ''B'' (Some ''G'')]) - {''G''} = {}"
  by (simp add: calls_of_def handleSearchDuplicates_def sample_repos_def sample_asset_def
      sample_candidate_def truthy_def updateDuplicates_def new_Set_def set_add_def stamp_def
      nonnull_ids_def Let_def)

text \<open>
  The sibling path does what the claim says: for a scanned asset without
  \<^verbatim>\<open>duplicateId\<close>, \<^verbatim>\<open>shift\<close> takes the target off the list, and the source list
  holds exactly the distinct non-null candidate group ids other than the target.
\<close>

lemma sources_without_own_id:
  assumes "scans env i a cs" and "cs \<noteq> []" and "nonempty_ids cs"
    and "Asset.duplicateId a = None"
  shows "\<exists>T ids srcs.
     merges (calls_of (handleSearchDuplicates env i)) = [(T, ids, srcs)] \<and>
     distinct srcs \<and> T \<notin> set srcs \<and> set srcs = set (nonnull_ids cs) - {T}"
proof (cases "new_Set (truthy_ids cs)")
  case Nil
  then have "set (truthy_ids cs) = {}"
    using new_Set_set [of "truthy_ids cs"] by simp
  with assms(4) Nil show ?thesis
    by (simp add: merges_scan [OF assms(1,2)] Let_def truthy_ids_nonnull [OF assms(3)])
next
  case (Cons d ds)
  have "distinct (d # ds)"
    using new_Set_distinct [of "truthy_ids cs"] Cons by simp
  moreover have "set (d # ds) = set (nonnull_ids cs)"
    using new_Set_set [of "truthy_ids cs"] Cons truthy_ids_nonnull [OF assms(3)] by simp
  ultimately have "distinct ds \<and> d \<notin> set ds \<and> set ds = set (nonnull_ids cs) - {d}" by auto
  with assms(4) Cons show ?thesis
    by (simp add: merges_scan [OF assms(1,2)] Let_def)
qed

text \<open>
  Claim C4. In a run whose similarity search returns a non-empty candidate list, the
  asset ids passed to the merge are the ids of the candidates whose current
  \<^verbatim>\<open>duplicateId\<close> differs from the target, and the scanned asset's own id, which is
  always there (it comes last).
\<close>

theorem merge_asset_ids:
  assumes "scans env i a cs" and "cs \<noteq> []"
  shows "\<exists>T ids srcs.
     merges (calls_of (handleSearchDuplicates env i)) = [(T, ids, srcs)] \<and>
     set ids =
       {assetId c |c. c \<in> set cs \<and> AssetDuplicateResult.duplicateId c \<noteq> Some T} \<union> {id' a} \<and>
     last ids = id' a"
  by (auto simp add: merges_scan [OF assms] Let_def)

theorem merge_asset_ids_witness:
  "merges (calls_of (handleSearchDuplicates
     (sample_repos True [] (sample_asset None (Some ''e'')) sample_candidates) ''A'')) =
     [(''G1'', [''B'', ''D'', ''A''], [''G2''])] \<and>
   {assetId c |c. c \<in> set sample_candidates \<and>
      AssetDuplicateResult.duplicateId c \<noteq> Some ''G1''} \<union> {''A''} = {''B'', ''D'', ''A''}"
proof -
  let ?a = "sample_asset None (Some ''e'')"
  let ?env = "sample_repos True [] ?a sample_candidates"
  have s: "scans ?env ''A'' ?a sample_candidates"
    by (simp add: scans_def sample_repos_def sample_asset_def truthy_def)
  have n: "sample_candidates \<noteq> []"
    by (simp add: sample_candidates_def)
  have m: "merges (calls_of (handleSearchDuplicates ?env ''A'')) =
      [(''G1'', [''B'', ''D'', ''A''], [''G2''])]"
    by (simp add: calls_of_def handleSearchDuplicates_def sample_repos_def sample_asset_def
        sample_candidates_def sample_candidate_def truthy_def updateDuplicates_def new_Set_def
        set_add_def stamp_def Let_def)
  obtain T ids srcs where
    "merges (calls_of (handleSearchDuplicates ?env ''A'')) = [(T, ids, srcs)]"
    and "set ids =
      {assetId c |c. c \<in> set sample_candidates \<and> AssetDuplicateResult.duplicateId c \<noteq> Some T}
        \<union> {id' ?a}"
    using merge_asset_ids [OF s n] by blast
  with m have "{assetId c |c. c \<in> set sample_candidates \<and>
      AssetDuplicateResult.duplicateId c \<noteq> Some ''G1''} \<union> {id' ?a} = set [''B'', ''D'', ''A'']"
    by simp
  with m show ?thesis by (simp add: sample_asset_def)
qed

section \<open>Runs without candidates\<close>

text \<open>
  Claim C6. In a run whose similarity search returns no candidate, for a scanned
  asset with \<^verbatim>\<open>duplicateId = G\<close> (a non-empty string), the run succeeds and its calls
  are the update that sets this asset's \<^verbatim>\<open>duplicateId\<close> to null, followed by the
  bookkeeping stamp: no merge and no deletion of a group. On any store, the calls
  clear the \<^verbatim>\<open>duplicateId\<close> of the scanned asset's row and leave every other row as
  it is, the other members of \<open>G\<close> included.
\<close>

theorem no_candidates_detach:
  assumes "scans env i a []" and "Asset.duplicateId a = Some g" and "g \<noteq> []"
  shows "status_of (handleSearchDuplicates env i) = SUCCESS \<and>
         calls_of (handleSearchDuplicates env i) =
           [AssetUpdate (id' a) None, UpsertJobStatus [(id' a, now env)]] \<and>
         merges (calls_of (handleSearchDuplicates env i)) = [] \<and>
         assets (foldl apply_call s (calls_of (handleSearchDuplicates env i))) (id' a) =
           map_option (\<lambda>r. r\<lparr>Asset.duplicateId := None\<rparr>) (assets s (id' a)) \<and>
         (\<forall>k. k \<noteq> id' a \<longrightarrow>
            assets (foldl apply_call s (calls_of (handleSearchDuplicates env i))) k = assets s k)"
  using assms
  by (simp add: scan_no_candidates status_of_def calls_of_def truthy_def stamp_def assets_update)

theorem no_candidates_detach_witness:
  "calls_of (handleSearchDuplicates
     (sample_repos True [] (sample_asset (Some ''G'') (Some ''e'')) []) ''A'') =
     [AssetUpdate ''A'' None, UpsertJobStatus [(''A'', 7)]] \<and>
   map_option Asset.duplicateId
     (assets (foldl apply_call (sample_store (Some ''G''))
        (calls_of (handleSearchDuplicates
           (sample_repos True [] (sample_asset (Some ''G'') (Some ''e'')) []) ''A''))) ''A'') =
     Some None \<and>
   map_option Asset.duplicateId
     (assets (foldl apply_call (sample_store (Some ''G''))
        (calls_of (handleSearchDuplicates
           (sample_repos True [] (sample_asset (Some ''G'') (Some ''e'')) []) ''A''))) ''B'') =
     Some (Some ''G'')"
proof -
  let ?a = "sample_asset (Some ''G'') (Some ''e'')"
  let ?env = "sample_repos True [] ?a []"
  have s: "scans ?env ''A'' ?a []"
    by (simp add: scans_def sample_repos_def sample_asset_def truthy_def)
  have d: "Asset.duplicateId ?a = Some ''G''" and i: "id' ?a = ''A''"
    by (simp_all add: sample_asset_def)
  have g: "''G'' \<noteq> []" by simp
  have n: "now ?env = 7" by (simp add: sample_repos_def)
  let ?after = "foldl apply_call (sample_store (Some ''G''))
      (calls_of (handleSearchDuplicates ?env ''A''))"
  note run = no_candidates_detach [OF s d g, of "sample_store (Some ''G'')", unfolded i n]
  from run have c: "calls_of (handleSearchDuplicates ?env ''A'') =
      [AssetUpdate ''A'' None, UpsertJobStatus [(''A'', 7)]]"
    by (elim conjE)
  from run have "assets ?after ''A'' =
      map_option (\<lambda>r. r\<lparr>Asset.duplicateId := None\<rparr>) (assets (sample_store (Some ''G'')) ''A'')"
    by (elim conjE)
  then have a: "map_option Asset.duplicateId (assets ?after ''A'') = Some None"
    by (simp add: sample_store_def)
  from run have "\<forall>k. k \<noteq> ''A'' \<longrightarrow> assets ?after k = assets (sample_store (Some ''G'')) k"
    by (elim conjE)
  then have "assets ?after ''B'' = assets (sample_store (Some ''G'')) ''B''"
    by simp
  then have b: "map_option Asset.duplicateId (assets ?after ''B'') = Some (Some ''G'')"
    by (simp add: sample_store_def sample_asset_def)
  from c a b show ?thesis by (intro conjI)
qed

text \<open>
  Claim C10. In a run whose similarity search returns no candidate, for a scanned
  asset without \<^verbatim>\<open>duplicateId\<close>, the run succeeds and its one call is the bookkeeping
  stamp of the scanned asset's id: no merge, no update of an asset field.
\<close>

theorem no_candidates_no_group:
  assumes "scans env i a []" and "Asset.duplicateId a = None"
  shows "status_of (handleSearchDuplicates env i) = SUCCESS \<and>
         calls_of (handleSearchDuplicates env i) = [UpsertJobStatus [(id' a, now env)]] \<and>
         filter is_mutation (calls_of (handleSearchDuplicates env i)) = []"
  using assms by (simp add: scan_no_candidates status_of_def calls_of_def truthy_def stamp_def)

theorem no_candidates_no_group_witness:
  "scans (sample_repos True [] (sample_asset None (Some ''e'')) []) ''A''
     (sample_asset None (Some ''e'')) [] \<and>
   status_of (handleSearchDuplicates
     (sample_repos True [] (sample_asset None (Some ''e'')) []) ''A'') = SUCCESS \<and>
   calls_of (handleSearchDuplicates
     (sample_repos True [] (sample_asset None (Some ''e'')) []) ''A'') =
     [UpsertJobStatus [(''A'', 7)]]"
proof -
  let ?a = "sample_asset None (Some ''e'')"
  let ?env = "sample_repos True [] ?a []"
  have s: "scans ?env ''A'' ?a []"
    by (simp add: scans_def sample_repos_def sample_asset_def truthy_def)
  have d: "Asset.duplicateId ?a = None" and i: "id' ?a = ''A''"
    by (simp_all add: sample_asset_def)
  have n: "now ?env = 7" by (simp add: sample_repos_def)
  from no_candidates_no_group [OF s d] s show ?thesis
    unfolding i n by simp
qed

section \<open>Runs stopped before the search\<close>

text \<open>
  Claim C7 fails with the feature disabled: the flag is tested before the asset is
  loaded, and the run of an asset without embedding, not stacked, not hidden and not
  locked returns the skipped status.
\<close>

theorem no_embedding_skipped_when_disabled:
  "getForSearchDuplicatesJob (sample_repos False [] (sample_asset None None) []) ''A'' =
     Some (sample_asset None None) \<and>
   stackId (sample_asset None None) = None \<and>
   visibility (sample_asset None None) = NORMAL \<and>
   embedding (sample_asset None None) = None \<and>
   status_of (handleSearchDuplicates (sample_repos False [] (sample_asset None None) []) ''A'') =
     SKIPPED"
  by (simp add: status_of_def handleSearchDuplicates_def sample_repos_def sample_asset_def)

text \<open>
  Claim C7, amended. With the feature enabled, for every asset that exists, is not
  stacked, not hidden and not locked, and has no embedding (null, or the empty
  string), scan-one returns the failed status and issues no call to a repository: no
  merge and no \<^verbatim>\<open>duplicateId\<close> clear.
\<close>

theorem no_embedding_fails:
  assumes "isDuplicateDetectionEnabled env" and "getForSearchDuplicatesJob env i = Some a"
    and "\<not> truthy (stackId a)" and "visibility a \<noteq> HIDDEN" and "visibility a \<noteq> LOCKED"
    and "\<not> truthy (embedding a)"
  shows "status_of (handleSearchDuplicates env i) = FAILED \<and>
         calls_of (handleSearchDuplicates env i) = []"
  using assms by (simp add: handleSearchDuplicates_def status_of_def calls_of_def)

theorem no_embedding_fails_witness:
  "isDuplicateDetectionEnabled (sample_repos True [] (sample_asset None None) sample_candidates) \<and>
   status_of (handleSearchDuplicates
     (sample_repos True [] (sample_asset None None) sample_candidates) ''A'') = FAILED \<and>
   calls_of (handleSearchDuplicates
     (sample_repos True [] (sample_asset None None) sample_candidates) ''A'') = []"
proof -
  let ?a = "sample_asset None None"
  let ?env = "sample_repos True [] ?a sample_candidates"
  have e: "isDuplicateDetectionEnabled ?env" and l: "getForSearchDuplicatesJob ?env ''A'' = Some ?a"
    by (simp_all add: sample_repos_def)
  have c: "\<not> truthy (stackId ?a)" "visibility ?a \<noteq> HIDDEN" "visibility ?a \<noteq> LOCKED"
    "\<not> truthy (embedding ?a)"
    by (simp_all add: sample_asset_def truthy_def)
  from no_embedding_fails [OF e l c] e show ?thesis by simp
qed

text \<open>
  Claim C8. With the feature enabled, for every asset that is part of a stack
  (its \<^verbatim>\<open>stackId\<close> is set), or hidden, or locked, scan-one returns the skipped status
  and issues no call to a repository, whatever the similarity search would return.
\<close>

theorem excluded_skipped:
  assumes "isDuplicateDetectionEnabled env" and "getForSearchDuplicatesJob env i = Some a"
    and "truthy (stackId a) \<or> visibility a = HIDDEN \<or> visibility a = LOCKED"
  shows "status_of (handleSearchDuplicates env i) = SKIPPED \<and>
         calls_of (handleSearchDuplicates env i) = []"
  using assms by (auto simp add: handleSearchDuplicates_def status_of_def calls_of_def)

theorem excluded_skipped_witness:
  "visibility ((sample_asset None (Some ''e''))\<lparr>visibility := HIDDEN\<rparr>) = HIDDEN \<and>
   status_of (handleSearchDuplicates
     (sample_repos True [] ((sample_asset None (Some ''e''))\<lparr>visibility := HIDDEN\<rparr>)
        sample_candidates) ''A'') = SKIPPED \<and>
   calls_of (handleSearchDuplicates
     (sample_repos True [] ((sample_asset None (Some ''e''))\<lparr>visibility := HIDDEN\<rparr>)
        sample_candidates) ''A'') = []"
proof -
  let ?a = "(sample_asset None (Some ''e''))\<lparr>visibility := HIDDEN\<rparr>"
  let ?env = "sample_repos True [] ?a sample_candidates"
  have e: "isDuplicateDetectionEnabled ?env" and l: "getForSearchDuplicatesJob ?env ''A'' = Some ?a"
    by (simp_all add: sample_repos_def)
  have c: "truthy (stackId ?a) \<or> visibility ?a = HIDDEN \<or> visibility ?a = LOCKED"
    by simp
  from excluded_skipped [OF e l c] show ?thesis by simp
qed

text \<open>
  Claim C9. The exclusion checks come before the embedding check: for every asset
  that is stacked, hidden or locked and has no embedding, scan-one returns skipped,
  never failed. With the feature enabled the one log line is that of the stack check
  for a stacked asset, else that of the hidden check for a hidden one, else that of
  the locked check; it is never the line of the missing embedding.
\<close>

theorem exclusion_before_embedding:
  assumes "getForSearchDuplicatesJob env i = Some a"
    and "truthy (stackId a) \<or> visibility a = HIDDEN \<or> visibility a = LOCKED"
    and "embedding a = None"
  shows "status_of (handleSearchDuplicates env i) = SKIPPED \<and>
         status_of (handleSearchDuplicates env i) \<noteq> FAILED \<and>
         (isDuplicateDetectionEnabled env \<longrightarrow>
            logs_of (handleSearchDuplicates env i) =
              [Debug (''Asset '' @ i @
                 (if truthy (stackId a) then '' is part of a stack, skipping''
                  else if visibility a = HIDDEN then '' is not visible, skipping''
                  else '' is locked, skipping''))])"
  using assms by (auto simp add: handleSearchDuplicates_def status_of_def logs_of_def)

theorem exclusion_before_embedding_witness:
  "embedding ((sample_asset None None)\<lparr>stackId := Some ''S'', visibility := LOCKED\<rparr>) = None \<and>
   status_of (handleSearchDuplicates
     (sample_repos True [] ((sample_asset None None)\<lparr>stackId := Some ''S'', visibility := LOCKED\<rparr>)
        []) ''A'') = SKIPPED \<and>
   logs_of (handleSearchDuplicates
     (sample_repos True [] ((sample_asset None None)\<lparr>stackId := Some ''S'', visibility := LOCKED\<rparr>)
        []) ''A'') = [Debug ''Asset A is part of a stack, skipping'']"
proof -
  let ?a = "(sample_asset None None)\<lparr>stackId := Some ''S'', visibility := LOCKED\<rparr>"
  let ?env = "sample_repos True [] ?a []"
  have e: "isDuplicateDetectionEnabled ?env" and l: "getForSearchDuplicatesJob ?env ''A'' = Some ?a"
    by (simp_all add: sample_repos_def)
  have t: "truthy (stackId ?a)" by (simp add: truthy_def)
  then have c: "truthy (stackId ?a) \<or> visibility ?a = HIDDEN \<or> visibility ?a = LOCKED"
    by simp
  have n: "embedding ?a = None" by (simp add: sample_asset_def)
  from exclusion_before_embedding [OF l c n] e t n show ?thesis by simp
qed

section \<open>The batches of scan-all\<close>

lemma queue_loop_inv:
  assumes "0 < k" and "length jobs < k" and "queue_loop k as jobs = (rest, cs)"
  shows "length rest = (length jobs + length as) mod k \<and>
         length cs = (length jobs + length as) div k \<and>
         length (batches cs) = length cs \<and>
         list_all (\<lambda>b. length b = k) (batches cs) \<and>
         concat (batches cs) @ rest = jobs @ map job as"
  using assms
proof (induction as arbitrary: jobs rest cs)
  case Nil
  then show ?case by simp
next
  case (Cons a as)
  let ?jobs1 = "jobs @ [job a]"
  show ?case
  proof (cases "k \<le> length ?jobs1")
    case True
    with Cons.prems have len: "length ?jobs1 = k" by simp
    obtain rest' cs' where rec: "queue_loop k as [] = (rest', cs')" by (cases "queue_loop k as []")
    from Cons.prems True rec have res: "rest = rest'" "cs = QueueAll ?jobs1 # cs'"
      by (simp_all add: job_def)
    have ih: "length rest' = (length ([]::JobItem list) + length as) mod k \<and>
         length cs' = (length ([]::JobItem list) + length as) div k \<and>
         length (batches cs') = length cs' \<and>
         list_all (\<lambda>b. length b = k) (batches cs') \<and>
         concat (batches cs') @ rest' = [] @ map job as"
      using Cons.IH [OF Cons.prems(1) _ rec] Cons.prems(1) by simp
    have eq: "length jobs + length (a # as) = k + length as" using len by simp
    have "(length jobs + length (a # as)) mod k = length as mod k"
      unfolding eq by simp
    moreover have "(length jobs + length (a # as)) div k = Suc (length as div k)"
      unfolding eq using Cons.prems(1) by simp
    ultimately have "length rest' = (length jobs + length (a # as)) mod k"
      and "Suc (length cs') = (length jobs + length (a # as)) div k"
      using ih by simp_all
    moreover have "concat (batches cs) @ rest = jobs @ map job (a # as)"
      using ih res by simp
    moreover have "length (batches cs) = length cs \<and> list_all (\<lambda>b. length b = k) (batches cs)"
      using ih res len by simp
    ultimately show ?thesis using res by simp
  next
    case False
    with Cons.prems have rec: "queue_loop k as ?jobs1 = (rest, cs)" by (simp add: job_def)
    from False have "length ?jobs1 < k" by simp
    from Cons.IH [OF Cons.prems(1) this rec] show ?thesis by simp
  qed
qed

lemma ceil_div:
  assumes k: "0 < (k::nat)"
  shows "(n + k - 1) div k = n div k + (if n mod k = 0 then 0 else 1)"
proof -
  obtain m where m: "k = Suc m" using k by (cases k) simp_all
  define q where "q = n div k"
  define r where "r = n mod k"
  have n: "n = r + q * k" by (simp add: q_def r_def)
  have rk: "r < k" using k by (simp add: r_def)
  have shift: "(x + q * k) div k = q + x div k" for x
    using k by (intro div_mult_self1) simp
  show ?thesis
  proof (cases "r = 0")
    case True
    have "n + k - 1 = m + q * k" using n True m by simp
    then have "(n + k - 1) div k = q + m div k" by (simp only: shift)
    moreover have "m div k = 0" using m by simp
    ultimately show ?thesis using True by (simp add: q_def r_def)
  next
    case False
    then obtain r' where r': "r = Suc r'" by (cases r) simp_all
    have "n + k - 1 = (r' + k) + q * k" using n r' m by simp
    then have "(n + k - 1) div k = q + (r' + k) div k" by (simp only: shift)
    moreover have "(r' + k) div k = 1" using rk r' by simp
    ultimately show ?thesis using False by (simp add: q_def r_def)
  qed
qed

lemma queueAll_batches:
  assumes en: "isDuplicateDetectionEnabled env" and k: "0 < JOBS_ASSET_PAGINATION_SIZE env"
  shows "\<exists>cs rest. handleQueueSearchDuplicates env force = (SUCCESS, cs @ [QueueAll rest]) \<and>
     batches (cs @ [QueueAll rest]) = batches cs @ [rest] \<and>
     length (batches cs) = length cs \<and>
     length cs = length (streamForSearchDuplicates env force) div JOBS_ASSET_PAGINATION_SIZE env \<and>
     length rest = length (streamForSearchDuplicates env force) mod JOBS_ASSET_PAGINATION_SIZE env \<and>
     list_all (\<lambda>b. length b = JOBS_ASSET_PAGINATION_SIZE env) (batches cs) \<and>
     concat (batches cs) @ rest = map job (streamForSearchDuplicates env force)"
proof -
  let ?k = "JOBS_ASSET_PAGINATION_SIZE env"
  let ?as = "streamForSearchDuplicates env force"
  obtain rest cs where q: "queue_loop ?k ?as [] = (rest, cs)" by (cases "queue_loop ?k ?as []")
  have inv: "length rest = (length ([]::JobItem list) + length ?as) mod ?k \<and>
         length cs = (length ([]::JobItem list) + length ?as) div ?k \<and>
         length (batches cs) = length cs \<and>
         list_all (\<lambda>b. length b = ?k) (batches cs) \<and>
         concat (batches cs) @ rest = [] @ map job ?as"
    using queue_loop_inv [OF k _ q] k by simp
  have b: "batches (cs @ [QueueAll rest]) = batches cs @ [rest]"
    by (induction cs rule: batches.induct) simp_all
  have "handleQueueSearchDuplicates env force = (SUCCESS, cs @ [QueueAll rest])"
    using en q by (simp add: handleQueueSearchDuplicates_def)
  with inv b show ?thesis by simp
qed

text \<open>
  Claim C5 fails where the threshold divides the number of assets: the flush after
  the loop is unconditional and then submits an empty batch. Two assets with threshold
  two take two submissions, the second of them empty, where the claim counts one.
\<close>

theorem trailing_empty_submission:
  "snd (handleQueueSearchDuplicates
     (sample_repos True [''a'', ''b''] (sample_asset None None) []) False) =
     [QueueAll [job ''a'', job ''b''], QueueAll []] \<and>
   (length (streamForSearchDuplicates
      (sample_repos True [''a'', ''b''] (sample_asset None None) []) False)
    + JOBS_ASSET_PAGINATION_SIZE (sample_repos True [''a'', ''b''] (sample_asset None None) [])
    - 1)
   div JOBS_ASSET_PAGINATION_SIZE (sample_repos True [''a'', ''b''] (sample_asset None None) [])
   = 1"
  by (simp add: handleQueueSearchDuplicates_def sample_repos_def job_def)

text \<open>
  Claim C5, amended. A run of scan-all with the feature enabled over an enumeration
  of \<open>N\<close> assets and a positive threshold \<open>K\<close> succeeds and makes exactly
  \<open>N div K + 1\<close> calls, all of them submissions to the job queue: every submission
  but the last is a full batch of \<open>K\<close> jobs, and the last one holds the remaining
  \<open>N mod K\<close> jobs, so it is empty when \<open>K\<close> divides \<open>N\<close>. The submissions that
  carry jobs number \<open>\<lceil>N/K\<rceil>\<close>, and the submitted jobs, in order of submission, are
  the scan-one jobs of the enumerated ids in order of enumeration: each id is
  submitted exactly as often as it is enumerated.
\<close>

theorem scan_all_batching:
  assumes en: "isDuplicateDetectionEnabled env" and k: "0 < JOBS_ASSET_PAGINATION_SIZE env"
  shows "fst (handleQueueSearchDuplicates env force) = SUCCESS \<and>
     length (snd (handleQueueSearchDuplicates env force)) =
       length (streamForSearchDuplicates env force) div JOBS_ASSET_PAGINATION_SIZE env + 1 \<and>
     length (batches (snd (handleQueueSearchDuplicates env force))) =
       length (snd (handleQueueSearchDuplicates env force)) \<and>
     length (filter (\<lambda>b. b \<noteq> []) (batches (snd (handleQueueSearchDuplicates env force)))) =
       (length (streamForSearchDuplicates env force) + JOBS_ASSET_PAGINATION_SIZE env - 1)
          div JOBS_ASSET_PAGINATION_SIZE env \<and>
     map data (concat (batches (snd (handleQueueSearchDuplicates env force)))) =
       streamForSearchDuplicates env force \<and>
     mset (map data (concat (batches (snd (handleQueueSearchDuplicates env force))))) =
       mset (streamForSearchDuplicates env force) \<and>
     list_all (\<lambda>b. length b = JOBS_ASSET_PAGINATION_SIZE env)
       (butlast (batches (snd (handleQueueSearchDuplicates env force)))) \<and>
     length (last (batches (snd (handleQueueSearchDuplicates env force)))) =
       length (streamForSearchDuplicates env force) mod JOBS_ASSET_PAGINATION_SIZE env \<and>
     concat (batches (snd (handleQueueSearchDuplicates env force))) =
       map job (streamForSearchDuplicates env force)"
proof -
  let ?k = "JOBS_ASSET_PAGINATION_SIZE env"
  let ?as = "streamForSearchDuplicates env force"
  obtain cs rest where r: "handleQueueSearchDuplicates env force = (SUCCESS, cs @ [QueueAll rest])"
    and b: "batches (cs @ [QueueAll rest]) = batches cs @ [rest]"
    and lb: "length (batches cs) = length cs"
    and lc: "length cs = length ?as div ?k"
    and lr: "length rest = length ?as mod ?k"
    and full: "list_all (\<lambda>b. length b = ?k) (batches cs)"
    and cat: "concat (batches cs) @ rest = map job ?as"
    using queueAll_batches [OF en k, of force] by blast
  have "filter (\<lambda>b. b \<noteq> []) (batches cs) = batches cs"
    using full k by (induction "batches cs" arbitrary: cs) (auto simp: list_all_iff filter_id_conv)
  moreover have "rest = [] \<longleftrightarrow> length ?as mod ?k = 0"
    using lr by (metis length_0_conv)
  ultimately have ne: "length (filter (\<lambda>b. b \<noteq> []) (batches cs @ [rest])) =
      length ?as div ?k + (if length ?as mod ?k = 0 then 0 else 1)"
    using lb lc by simp
  have ids: "map data (concat (batches cs @ [rest])) = ?as"
  proof -
    have "map data (concat (batches cs @ [rest])) = map data (map job ?as)"
      using cat by simp
    then show ?thesis by (simp add: job_def comp_def)
  qed
  have c1: "fst (handleQueueSearchDuplicates env force) = SUCCESS"
    by (simp add: r)
  have c2: "length (snd (handleQueueSearchDuplicates env force)) = length ?as div ?k + 1"
    by (simp add: r lc)
  have c3: "length (batches (snd (handleQueueSearchDuplicates env force))) =
       length (snd (handleQueueSearchDuplicates env force))"
    by (simp add: r b lb)
  have c4: "length (filter (\<lambda>b. b \<noteq> []) (batches (snd (handleQueueSearchDuplicates env force)))) =
       (length ?as + ?k - 1) div ?k"
    unfolding ceil_div [OF k] using ne by (simp only: r b snd_conv)
  have c5: "map data (concat (batches (snd (handleQueueSearchDuplicates env force)))) = ?as"
    using ids by (simp only: r b snd_conv)
  have c6: "list_all (\<lambda>b. length b = ?k)
      (butlast (batches (snd (handleQueueSearchDuplicates env force))))"
    using full by (simp add: r b)
  have c7: "length (last (batches (snd (handleQueueSearchDuplicates env force)))) =
      length ?as mod ?k"
    using lr by (simp add: r b)
  have c8: "concat (batches (snd (handleQueueSearchDuplicates env force))) = map job ?as"
    using cat by (simp add: r b)
  from c1 c2 c3 c4 c5 c6 c7 c8 show ?thesis by simp
qed

theorem scan_all_batching_witness:
  "isDuplicateDetectionEnabled
     (sample_repos True [''a'', ''b'', ''c''] (sample_asset None None) []) \<and>
   length (snd (handleQueueSearchDuplicates
     (sample_repos True [''a'', ''b'', ''c''] (sample_asset None None) []) False)) = 2 \<and>
   length (filter (\<lambda>b. b \<noteq> []) (batches (snd (handleQueueSearchDuplicates
     (sample_repos True [''a'', ''b'', ''c''] (sample_asset None None) []) False)))) = 2 \<and>
   map data (concat (batches (snd (handleQueueSearchDuplicates
     (sample_repos True [''a'', ''b'', ''c''] (sample_asset None None) []) False)))) =
     [''a'', ''b'', ''c''] \<and>
   list_all (\<lambda>b. length b = 2) (butlast (batches (snd (handleQueueSearchDuplicates
     (sample_repos True [''a'', ''b'', ''c''] (sample_asset None None) []) False)))) \<and>
   length (last (batches (snd (handleQueueSearchDuplicates
     (sample_repos True [''a'', ''b'', ''c''] (sample_asset None None) []) False)))) = 1 \<and>
   concat (batches (snd (handleQueueSearchDuplicates
     (sample_repos True [''a'', ''b'', ''c''] (sample_asset None None) []) False))) =
     [job ''a'', job ''b'', job ''c'']"
proof -
  let ?env = "sample_repos True [''a'', ''b'', ''c''] (sample_asset None None) []"
  have e: "isDuplicateDetectionEnabled ?env" and k: "0 < JOBS_ASSET_PAGINATION_SIZE ?env"
    by (simp_all add: sample_repos_def)
  have v: "JOBS_ASSET_PAGINATION_SIZE ?env = 2"
    "streamForSearchDuplicates ?env False = [''a'', ''b'', ''c'']"
    by (simp_all add: sample_repos_def)
  from scan_all_batching [OF e k, of False] e show ?thesis
    unfolding v by (simp add: job_def)
qed

section \<open>A second run\<close>

text \<open>After a merge, the asset and its candidates all hold the target id.\<close>

lemma rerun_after_merge:
  assumes sc: "scans (store_repos base similar s) i a cs" and ne: "cs \<noteq> []"
  shows "fst (scan_one base similar s i) = SUCCESS \<and>
         fst (scan_one (again base t u) similar (snd (scan_one base similar s i)) i) = SUCCESS \<and>
         filter is_update
           (calls_one (again base t u) similar (snd (scan_one base similar s i)) i) = [] \<and>
         assets (snd (scan_one (again base t u) similar (snd (scan_one base similar s i)) i)) =
           assets (snd (scan_one base similar s i))"
proof -
  let ?E1 = "store_repos base similar s"
  obtain T ids srcs where
    calls1: "calls_of (handleSearchDuplicates ?E1 i) = [Merge T ids srcs, stamp ?E1 ids]"
    and st1: "status_of (handleSearchDuplicates ?E1 i) = SUCCESS"
    and own: "id' a \<in> set ids"
    and others: "\<forall>c\<in>set cs. AssetDuplicateResult.duplicateId c \<noteq> Some T \<longrightarrow> assetId c \<in> set ids"
    using update_calls [OF sc ne] by blast
  define s1 where "s1 = snd (scan_one base similar s i)"
  have as1: "assets s1 = assets (merge s T ids srcs)"
    by (simp add: s1_def scan_one_def Let_def calls1 stamp_def)
  let ?l = "similar (id' a) (the (embedding a)) (maxDistance base) (type a) [ownerId a]"
  from sc have row: "find_row s i = Some a" and cs: "List.map_filter (candidate s) ?l = cs"
    and en: "isDuplicateDetectionEnabled base"
    and gates: "\<not> truthy (stackId a)" "visibility a \<noteq> HIDDEN" "visibility a \<noteq> LOCKED"
      "truthy (embedding a)"
    by (simp_all add: scans_store)
  from row obtain r where r: "assets s i = Some r" and a: "a = r\<lparr>id' := i\<rparr>"
    by (auto simp add: find_row_def)
  have ia: "id' a = i" using a by simp
  let ?a2 = "a\<lparr>Asset.duplicateId := Some T\<rparr>"
  have r1: "assets s1 i = Some (r\<lparr>Asset.duplicateId := Some T\<rparr>)"
    using own ia r by (simp add: as1 assets_merge)
  have row2: "find_row s1 i = Some ?a2"
    using r1 a by (simp add: find_row_def)
  have cand2: "\<forall>kd\<in>set ?l. candidate s1 kd =
      map_option (\<lambda>c. c\<lparr>AssetDuplicateResult.duplicateId := Some T\<rparr>) (candidate s kd)"
  proof
    fix kd assume kd: "kd \<in> set ?l"
    show "candidate s1 kd =
      map_option (\<lambda>c. c\<lparr>AssetDuplicateResult.duplicateId := Some T\<rparr>) (candidate s kd)"
    proof (cases "assets s (fst kd)")
      case None
      then show ?thesis by (simp add: candidate_def as1 assets_merge)
    next
      case (Some q)
      let ?c = "\<lparr>assetId = fst kd, duplicateId = Asset.duplicateId q, distance = snd kd\<rparr>"
      have "candidate s kd = Some ?c" using Some by (simp add: candidate_def)
      then have "?c \<in> set cs" using kd cs map_filter_mem [of ?c "candidate s" ?l] by blast
      then have "Asset.duplicateId q \<noteq> Some T \<longrightarrow> fst kd \<in> set ids"
        using others by force
      then show ?thesis using Some
        by (auto simp add: candidate_def as1 assets_merge)
    qed
  qed
  let ?cs2 = "map (\<lambda>c. c\<lparr>AssetDuplicateResult.duplicateId := Some T\<rparr>) cs"
  have cs2: "List.map_filter (candidate s1) ?l = ?cs2"
    using map_filter_map_option [OF cand2] cs by simp
  let ?E2 = "store_repos (again base t u) similar s1"
  have sc2: "scans ?E2 i ?a2 ?cs2"
    using en row2 gates cs2 by (simp add: scans_store again_def)
  have ne2: "?cs2 \<noteq> []" using ne by simp
  obtain T2 ids2 srcs2 where
    calls2: "calls_of (handleSearchDuplicates ?E2 i) = [Merge T2 ids2 srcs2, stamp ?E2 ids2]"
    and st2: "status_of (handleSearchDuplicates ?E2 i) = SUCCESS"
    and same: "\<forall>g. Asset.duplicateId ?a2 = Some g \<longrightarrow>
        T2 = g \<and>
        ids2 = map assetId (filter (\<lambda>c. AssetDuplicateResult.duplicateId c \<noteq> Some g) ?cs2) @ [id' ?a2] \<and>
        set srcs2 = set (truthy_ids ?cs2)"
    using update_calls [OF sc2 ne2] by blast
  from same have T2: "T2 = T" by simp
  have "filter (\<lambda>c. AssetDuplicateResult.duplicateId c \<noteq> Some T) ?cs2 = []"
    by (induction cs) simp_all
  with same ia have ids2: "ids2 = [i]" by simp
  from same have srcs2: "set srcs2 \<subseteq> {T}" using truthy_ids_regrouped [of T cs] by simp
  have "assets (merge s1 T [i] srcs2) k = assets s1 k" for k
  proof (cases "assets s1 k")
    case None
    then show ?thesis by (simp add: assets_merge)
  next
    case (Some q)
    have "k = i \<Longrightarrow> Asset.duplicateId q = Some T"
      using Some r1 by auto
    moreover have "in_groups srcs2 q \<Longrightarrow> Asset.duplicateId q = Some T"
      using srcs2 by (auto simp add: in_groups_def split: option.splits)
    ultimately show ?thesis using Some
      by (auto simp add: assets_merge)
  qed
  then have "assets (merge s1 T [i] srcs2) = assets s1" by (rule ext)
  then have "assets (snd (scan_one (again base t u) similar s1 i)) = assets s1"
    by (simp add: scan_one_def Let_def calls2 T2 ids2 stamp_def)
  moreover have "fst (scan_one (again base t u) similar s1 i) = SUCCESS"
    by (simp add: scan_one_def Let_def st2)
  moreover have "fst (scan_one base similar s i) = SUCCESS"
    by (simp add: scan_one_def Let_def st1)
  moreover have "filter is_update (calls_one (again base t u) similar s1 i) = []"
    by (simp add: calls_one_def calls2 stamp_def)
  ultimately show ?thesis by (simp add: s1_def)
qed

text \<open>A run stopped before the search writes nothing, and so does its repetition.\<close>

lemma rerun_blocked:
  assumes "\<not> gate (store_repos base similar s) (find_row s i)"
  shows "fst (scan_one (again base t u) similar (snd (scan_one base similar s i)) i) =
           fst (scan_one base similar s i) \<and>
         filter is_update
           (calls_one (again base t u) similar (snd (scan_one base similar s i)) i) = [] \<and>
         assets (snd (scan_one (again base t u) similar (snd (scan_one base similar s i)) i)) =
           assets (snd (scan_one base similar s i))"
proof -
  let ?E1 = "store_repos base similar s"
  let ?E2 = "store_repos (again base t u) similar s"
  have g1: "\<not> gate ?E1 (getForSearchDuplicatesJob ?E1 i)"
    using assms by (simp add: store_repos_def)
  have g2: "\<not> gate ?E2 (getForSearchDuplicatesJob ?E2 i)"
    using assms by (simp add: store_repos_def gate_def again_def)
  have s1: "scan_one base similar s i = (status_of (handleSearchDuplicates ?E1 i), s)"
    using not_gate [OF g1] by (simp add: scan_no_calls)
  have s2: "scan_one (again base t u) similar s i = (status_of (handleSearchDuplicates ?E2 i), s)"
    using not_gate [OF g2] by (simp add: scan_no_calls)
  have "status_of (handleSearchDuplicates ?E2 i) = status_of (handleSearchDuplicates ?E1 i)"
    using not_gate [OF g1] not_gate [OF g2] by (simp add: store_repos_def again_def)
  moreover have "calls_one (again base t u) similar s i = []"
    using not_gate [OF g2] by (simp add: calls_one_def)
  ultimately show ?thesis by (simp add: s1 s2)
qed

text \<open>Without candidates the first run detaches the asset at most.\<close>

lemma rerun_no_candidates:
  assumes sc: "scans (store_repos base similar s) i a []"
  shows "fst (scan_one base similar s i) = SUCCESS \<and>
         fst (scan_one (again base t u) similar (snd (scan_one base similar s i)) i) = SUCCESS \<and>
         filter is_update
           (calls_one (again base t u) similar (snd (scan_one base similar s i)) i) = [] \<and>
         assets (snd (scan_one (again base t u) similar (snd (scan_one base similar s i)) i)) =
           assets (snd (scan_one base similar s i))"
proof -
  let ?E1 = "store_repos base similar s"
  define s1 where "s1 = snd (scan_one base similar s i)"
  let ?l = "similar (id' a) (the (embedding a)) (maxDistance base) (type a) [ownerId a]"
  from sc have row: "find_row s i = Some a" and cs: "List.map_filter (candidate s) ?l = []"
    and en: "isDuplicateDetectionEnabled base"
    and gates: "\<not> truthy (stackId a)" "visibility a \<noteq> HIDDEN" "visibility a \<noteq> LOCKED"
      "truthy (embedding a)"
    by (simp_all add: scans_store)
  from row obtain r where r: "assets s i = Some r" and a: "a = r\<lparr>id' := i\<rparr>"
    by (auto simp add: find_row_def)
  have ia: "id' a = i" using a by simp
  let ?a2 = "a\<lparr>Asset.duplicateId := None\<rparr>"
  let ?E2 = "store_repos (again base t u) similar s1"
  have st1: "fst (scan_one base similar s i) = SUCCESS"
    by (simp add: scan_one_def Let_def scan_no_candidates [OF sc] status_of_def)
  have "\<exists>a'. scans ?E2 i a' [] \<and> \<not> truthy (Asset.duplicateId a')"
  proof (cases "truthy (Asset.duplicateId a)")
    case True
    then have as1: "assets s1 = assets (update s i None)"
      by (simp add: s1_def scan_one_def Let_def scan_no_candidates [OF sc] calls_of_def stamp_def ia)
    have row2: "find_row s1 i = Some ?a2"
      using r a by (simp add: find_row_def as1 assets_update)
    have "\<forall>kd\<in>set ?l. candidate s1 kd = None"
    proof
      fix kd assume "kd \<in> set ?l"
      then have "candidate s kd = None" using cs map_filter_Nil_iff [of "candidate s" ?l] by blast
      then have "assets s (fst kd) = None" by (simp add: candidate_def)
      then show "candidate s1 kd = None" by (auto simp add: candidate_def as1 assets_update)
    qed
    then have "List.map_filter (candidate s1) ?l = []"
      using map_filter_Nil_iff [of "candidate s1" ?l] by blast
    then have "scans ?E2 i ?a2 []"
      using en row2 gates by (simp add: scans_store again_def)
    moreover have "\<not> truthy (Asset.duplicateId ?a2)" by (simp add: truthy_def)
    ultimately show ?thesis by blast
  next
    case False
    then have as1: "assets s1 = assets s"
      by (simp add: s1_def scan_one_def Let_def scan_no_candidates [OF sc] calls_of_def stamp_def)
    have "scans ?E2 i a []"
      using sc unfolding reads_assets_only [OF as1] by (simp add: scans_def again_def)
    with False show ?thesis by blast
  qed
  then obtain a' where sc2: "scans ?E2 i a' []" and nt: "\<not> truthy (Asset.duplicateId a')"
    by blast
  have "fst (scan_one (again base t u) similar s1 i) = SUCCESS \<and>
        filter is_update (calls_one (again base t u) similar s1 i) = [] \<and>
        assets (snd (scan_one (again base t u) similar s1 i)) = assets s1"
    using nt by (simp add: scan_one_def calls_one_def Let_def scan_no_candidates [OF sc2]
        status_of_def calls_of_def stamp_def)
  with st1 show ?thesis by (simp add: s1_def)
qed

lemma rerun_current:
  "fst (scan_one (again base t u) similar (snd (scan_one base similar s i)) i) =
     fst (scan_one base similar s i) \<and>
   filter is_update
     (calls_one (again base t u) similar (snd (scan_one base similar s i)) i) = [] \<and>
   assets (snd (scan_one (again base t u) similar (snd (scan_one base similar s i)) i)) =
     assets (snd (scan_one base similar s i))"
proof (cases "gate (store_repos base similar s) (find_row s i)")
  case False
  then show ?thesis by (rule rerun_blocked)
next
  case True
  let ?E1 = "store_repos base similar s"
  from True have "gate ?E1 (getForSearchDuplicatesJob ?E1 i)" by (simp add: store_repos_def)
  from gate_scans [OF this] obtain a cs where sc: "scans ?E1 i a cs" by blast
  show ?thesis
  proof (cases "cs = []")
    case True
    with sc have "scans ?E1 i a []" by simp
    from rerun_no_candidates [OF this, of t u] show ?thesis by simp
  next
    case False
    from rerun_after_merge [OF sc False, of t u] show ?thesis by simp
  qed
qed

text \<open>The same three cases for a candidate list that is handed back as it is.\<close>

lemma rerun_fixed_after_merge:
  assumes sc: "scans (fixed_repos base cs s) i a cs" and ne: "cs \<noteq> []"
  shows "fst (scan_one_fixed base cs s i) = SUCCESS \<and>
         fst (scan_one_fixed (again base t u) cs (snd (scan_one_fixed base cs s i)) i) = SUCCESS \<and>
         filter is_update
           (calls_one_fixed (again base t u) cs (snd (scan_one_fixed base cs s i)) i) = [] \<and>
         assets (snd (scan_one_fixed (again base t u) cs (snd (scan_one_fixed base cs s i)) i)) =
           assets (snd (scan_one_fixed base cs s i))"
proof -
  let ?E1 = "fixed_repos base cs s"
  define T where "T = (case Asset.duplicateId a of
                 Some g \<Rightarrow> g
               | None \<Rightarrow> (case new_Set (truthy_ids cs) of [] \<Rightarrow> randomUUID ?E1 | d # ds \<Rightarrow> d))"
  define ids where "ids = map assetId (filter (\<lambda>c. AssetDuplicateResult.duplicateId c \<noteq> Some T) cs)
                  @ [id' a]"
  define srcs where "srcs = (case Asset.duplicateId a of
               Some g \<Rightarrow> new_Set (truthy_ids cs)
             | None \<Rightarrow> tl (new_Set (truthy_ids cs)))"
  have calls1: "calls_of (handleSearchDuplicates ?E1 i) = [Merge T ids srcs, stamp ?E1 ids]"
    by (simp add: calls_scan [OF sc ne] T_def ids_def srcs_def Let_def)
  have cover: "set (new_Set (truthy_ids cs)) \<subseteq> set srcs \<union> {T}"
    unfolding srcs_def T_def by (rule sources_cover)
  define s1 where "s1 = snd (scan_one_fixed base cs s i)"
  have as1: "assets s1 = assets (merge s T ids srcs)"
    by (simp add: s1_def scan_one_fixed_def Let_def calls1 stamp_def)
  from sc have row: "find_row s i = Some a"
    and en: "isDuplicateDetectionEnabled base"
    and gates: "\<not> truthy (stackId a)" "visibility a \<noteq> HIDDEN" "visibility a \<noteq> LOCKED"
      "truthy (embedding a)"
    by (simp_all add: scans_fixed)
  from row obtain r where r: "assets s i = Some r" and a: "a = r\<lparr>id' := i\<rparr>"
    by (auto simp add: find_row_def)
  have ia: "id' a = i" using a by simp
  have own: "i \<in> set ids" by (simp add: ids_def ia)
  let ?a2 = "a\<lparr>Asset.duplicateId := Some T\<rparr>"
  have r1: "assets s1 i = Some (r\<lparr>Asset.duplicateId := Some T\<rparr>)"
    using own r by (simp add: as1 assets_merge)
  have row2: "find_row s1 i = Some ?a2"
    using r1 a by (simp add: find_row_def)
  let ?E2 = "fixed_repos (again base t u) cs s1"
  have sc2: "scans ?E2 i ?a2 cs"
    using en row2 gates by (simp add: scans_fixed again_def)
  have calls2: "calls_of (handleSearchDuplicates ?E2 i) =
      [Merge T ids (new_Set (truthy_ids cs)), stamp ?E2 ids]"
    by (simp add: calls_scan [OF sc2 ne] ids_def Let_def)
  have "assets (merge s1 T ids (new_Set (truthy_ids cs))) k = assets s1 k" for k
  proof (cases "assets s k")
    case None
    then show ?thesis by (simp add: assets_merge as1)
  next
    case (Some q)
    show ?thesis
    proof (cases "k \<in> set ids \<or> in_groups srcs q")
      case True
      with Some show ?thesis by (simp add: assets_merge as1)
    next
      case False
      with Some have q1: "assets s1 k = Some q" by (simp add: assets_merge as1)
      have "in_groups (new_Set (truthy_ids cs)) q \<Longrightarrow> Asset.duplicateId q = Some T"
        using False cover by (auto simp add: in_groups_def split: option.splits)
      then show ?thesis using q1 False
        by (auto simp add: assets_merge)
    qed
  qed
  then have "assets (merge s1 T ids (new_Set (truthy_ids cs))) = assets s1" by (rule ext)
  then have "assets (snd (scan_one_fixed (again base t u) cs s1 i)) = assets s1"
    by (simp add: scan_one_fixed_def Let_def calls2 stamp_def)
  moreover have "fst (scan_one_fixed (again base t u) cs s1 i) = SUCCESS"
    by (simp add: scan_one_fixed_def Let_def status_scan [OF sc2])
  moreover have "filter is_update (calls_one_fixed (again base t u) cs s1 i) = []"
    by (simp add: calls_one_fixed_def calls2 stamp_def)
  moreover have "fst (scan_one_fixed base cs s i) = SUCCESS"
    by (simp add: scan_one_fixed_def Let_def status_scan [OF sc])
  ultimately show ?thesis by (simp add: s1_def)
qed

lemma rerun_fixed_no_candidates:
  assumes sc: "scans (fixed_repos base [] s) i a []"
  shows "fst (scan_one_fixed base [] s i) = SUCCESS \<and>
         fst (scan_one_fixed (again base t u) [] (snd (scan_one_fixed base [] s i)) i) = SUCCESS \<and>
         filter is_update
           (calls_one_fixed (again base t u) [] (snd (scan_one_fixed base [] s i)) i) = [] \<and>
         assets (snd (scan_one_fixed (again base t u) [] (snd (scan_one_fixed base [] s i)) i)) =
           assets (snd (scan_one_fixed base [] s i))"
proof -
  define s1 where "s1 = snd (scan_one_fixed base [] s i)"
  from sc have row: "find_row s i = Some a"
    and en: "isDuplicateDetectionEnabled base"
    and gates: "\<not> truthy (stackId a)" "visibility a \<noteq> HIDDEN" "visibility a \<noteq> LOCKED"
      "truthy (embedding a)"
    by (simp_all add: scans_fixed)
  from row obtain r where r: "assets s i = Some r" and a: "a = r\<lparr>id' := i\<rparr>"
    by (auto simp add: find_row_def)
  have ia: "id' a = i" using a by simp
  let ?a2 = "a\<lparr>Asset.duplicateId := None\<rparr>"
  let ?E2 = "fixed_repos (again base t u) [] s1"
  have "\<exists>a'. scans ?E2 i a' [] \<and> \<not> truthy (Asset.duplicateId a')"
  proof (cases "truthy (Asset.duplicateId a)")
    case True
    then have as1: "assets s1 = assets (update s i None)"
      by (simp add: s1_def scan_one_fixed_def Let_def scan_no_candidates [OF sc] calls_of_def
          stamp_def ia)
    have row2: "find_row s1 i = Some ?a2"
      using r a by (simp add: find_row_def as1 assets_update)
    then have "scans ?E2 i ?a2 []"
      using en gates by (simp add: scans_fixed again_def)
    moreover have "\<not> truthy (Asset.duplicateId ?a2)" by (simp add: truthy_def)
    ultimately show ?thesis by blast
  next
    case False
    then have as1: "assets s1 = assets s"
      by (simp add: s1_def scan_one_fixed_def Let_def scan_no_candidates [OF sc] calls_of_def
          stamp_def)
    have "scans ?E2 i a []"
      using sc unfolding fixed_reads_assets_only [OF as1] by (simp add: scans_def again_def)
    with False show ?thesis by blast
  qed
  then obtain a' where sc2: "scans ?E2 i a' []" and nt: "\<not> truthy (Asset.duplicateId a')"
    by blast
  have "assets (snd (scan_one_fixed (again base t u) [] s1 i)) = assets s1"
    using nt by (simp add: scan_one_fixed_def Let_def scan_no_candidates [OF sc2] calls_of_def
        stamp_def)
  moreover have "fst (scan_one_fixed (again base t u) [] s1 i) = SUCCESS"
    by (simp add: scan_one_fixed_def Let_def status_scan [OF sc2])
  moreover have "filter is_update (calls_one_fixed (again base t u) [] s1 i) = []"
    using nt by (simp add: calls_one_fixed_def scan_no_candidates [OF sc2] calls_of_def stamp_def)
  moreover have "fst (scan_one_fixed base [] s i) = SUCCESS"
    by (simp add: scan_one_fixed_def Let_def status_scan [OF sc])
  ultimately show ?thesis by (simp add: s1_def)
qed

lemma rerun_fixed_blocked:
  assumes "\<not> gate (fixed_repos base cs s) (find_row s i)"
  shows "fst (scan_one_fixed (again base t u) cs (snd (scan_one_fixed base cs s i)) i) =
           fst (scan_one_fixed base cs s i) \<and>
         filter is_update
           (calls_one_fixed (again base t u) cs (snd (scan_one_fixed base cs s i)) i) = [] \<and>
         assets (snd (scan_one_fixed (again base t u) cs (snd (scan_one_fixed base cs s i)) i)) =
           assets (snd (scan_one_fixed base cs s i))"
proof -
  let ?E1 = "fixed_repos base cs s"
  let ?E2 = "fixed_repos (again base t u) cs s"
  have g1: "\<not> gate ?E1 (getForSearchDuplicatesJob ?E1 i)"
    using assms by (simp add: fixed_repos_def)
  have g2: "\<not> gate ?E2 (getForSearchDuplicatesJob ?E2 i)"
    using assms by (simp add: fixed_repos_def gate_def again_def)
  have s1: "scan_one_fixed base cs s i = (status_of (handleSearchDuplicates ?E1 i), s)"
    using not_gate [OF g1] by (simp add: scan_one_fixed_def Let_def)
  have s2: "scan_one_fixed (again base t u) cs s i = (status_of (handleSearchDuplicates ?E2 i), s)"
    using not_gate [OF g2] by (simp add: scan_one_fixed_def Let_def)
  have "status_of (handleSearchDuplicates ?E2 i) = status_of (handleSearchDuplicates ?E1 i)"
    using not_gate [OF g1] not_gate [OF g2] by (simp add: fixed_repos_def again_def)
  moreover have "calls_one_fixed (again base t u) cs s i = []"
    using not_gate [OF g2] by (simp add: calls_one_fixed_def)
  ultimately show ?thesis by (simp add: s1 s2)
qed

lemma rerun_fixed:
  "fst (scan_one_fixed (again base t u) cs (snd (scan_one_fixed base cs s i)) i) =
     fst (scan_one_fixed base cs s i) \<and>
   filter is_update
     (calls_one_fixed (again base t u) cs (snd (scan_one_fixed base cs s i)) i) = [] \<and>
   assets (snd (scan_one_fixed (again base t u) cs (snd (scan_one_fixed base cs s i)) i)) =
     assets (snd (scan_one_fixed base cs s i))"
proof (cases "gate (fixed_repos base cs s) (find_row s i)")
  case False
  then show ?thesis by (rule rerun_fixed_blocked)
next
  case True
  let ?E1 = "fixed_repos base cs s"
  from True have "gate ?E1 (getForSearchDuplicatesJob ?E1 i)" by (simp add: fixed_repos_def)
  from gate_scans [OF this] obtain a cs' where "scans ?E1 i a cs'" by blast
  then have sc: "scans ?E1 i a cs" by (simp add: scans_fixed)
  show ?thesis
  proof (cases "cs = []")
    case True
    with sc rerun_fixed_no_candidates [of base s i a t u] show ?thesis by simp
  next
    case False
    from rerun_fixed_after_merge [OF sc False, of t u] show ?thesis by simp
  qed
qed

section \<open>Idempotence of scan-one\<close>

text \<open>
  Claim C3 fails in its second half: a second run whose search returns candidates
  issues a merge again. After the first run has put \<open>A\<close> and its candidate \<open>B\<close> into
  the new group \<open>U1\<close>, the second run merges \<open>A\<close> into \<open>U1\<close> once more, with \<open>U1\<close>
  as its source group.
\<close>

theorem second_run_merges_again:
  "filter is_mutation
     (calls_one (again (sample_repos True [] (sample_asset None None) []) 8 ''U2'')
        sample_similar
        (snd (scan_one (sample_repos True [] (sample_asset None None) []) sample_similar
           (sample_store None) ''A'')) ''A'') =
   [Merge ''U1'' [''A''] [''U1'']]"
  by (simp add: calls_one_def scan_one_def calls_of_def status_of_def handleSearchDuplicates_def
      store_repos_def find_row_def candidate_def sample_repos_def sample_asset_def
      sample_store_def sample_similar_def truthy_def updateDuplicates_def new_Set_def
      set_add_def stamp_def merge_def upsertJobStatus_def in_groups_def again_def
      List.map_filter_simps Let_def)

text \<open>
  Claim C3, amended. Scan-one is idempotent on the group assignment: when a run of
  scan-one on an asset is followed by a second run on the same asset, with the
  configuration and the candidate data unchanged, the second run returns the status
  of the first, issues no update of an asset's \<^verbatim>\<open>duplicateId\<close>, and its calls leave
  every asset row, and so the group id of every asset, as the first run left it: a
  merge it issues changes no row. This holds when the search reports the same assets
  with the group ids they hold at the time of each run, and when it hands back the
  very same candidate list.
\<close>

theorem scan_one_idempotent:
  "(fst (scan_one (again base t u) similar (snd (scan_one base similar s i)) i) =
      fst (scan_one base similar s i) \<and>
    filter is_update
      (calls_one (again base t u) similar (snd (scan_one base similar s i)) i) = [] \<and>
    assets (snd (scan_one (again base t u) similar (snd (scan_one base similar s i)) i)) =
      assets (snd (scan_one base similar s i))) \<and>
   (fst (scan_one_fixed (again base t u) cs (snd (scan_one_fixed base cs s i)) i) =
      fst (scan_one_fixed base cs s i) \<and>
    filter is_update
      (calls_one_fixed (again base t u) cs (snd (scan_one_fixed base cs s i)) i) = [] \<and>
    assets (snd (scan_one_fixed (again base t u) cs (snd (scan_one_fixed base cs s i)) i)) =
      assets (snd (scan_one_fixed base cs s i)))"
  using rerun_current [of base t u similar s i] rerun_fixed [of base t u cs s i]
  by (intro conjI) (elim conjE, assumption)+

theorem scan_one_idempotent_witness:
  "map_option Asset.duplicateId
     (assets (snd (scan_one (again (sample_repos True [] (sample_asset None None) []) 8 ''U2'')
        sample_similar
        (snd (scan_one (sample_repos True [] (sample_asset None None) []) sample_similar
           (sample_store None) ''A'')) ''A'')) ''B'') = Some (Some ''U1'') \<and>
   map_option Asset.duplicateId
     (assets (snd (scan_one_fixed
        (again (sample_repos True [] (sample_asset None None) []) 8 ''U2'')
        sample_candidates
        (snd (scan_one_fixed (sample_repos True [] (sample_asset None None) [])
           sample_candidates (sample_store None) ''A'')) ''A'')) ''B'') = Some (Some ''G1'')"
proof -
  let ?base = "sample_repos True [] (sample_asset None None) []"
  note twice = scan_one_idempotent
    [of ?base 8 "''U2''" sample_similar "sample_store None" "''A''" sample_candidates]
  have "map_option Asset.duplicateId
     (assets (snd (scan_one ?base sample_similar (sample_store None) ''A'')) ''B'') =
     Some (Some ''U1'')"
    by (simp add: scan_one_def calls_of_def status_of_def handleSearchDuplicates_def
        store_repos_def find_row_def candidate_def sample_repos_def sample_asset_def
        sample_store_def sample_similar_def truthy_def updateDuplicates_def new_Set_def
        stamp_def merge_def in_groups_def List.map_filter_simps Let_def)
  moreover have "map_option Asset.duplicateId
     (assets (snd (scan_one_fixed ?base sample_candidates (sample_store None) ''A'')) ''B'') =
     Some (Some ''G1'')"
    by (simp add: scan_one_fixed_def calls_of_def status_of_def handleSearchDuplicates_def
        fixed_repos_def find_row_def sample_repos_def sample_asset_def sample_candidates_def
        sample_candidate_def sample_store_def truthy_def updateDuplicates_def new_Set_def
        set_add_def stamp_def merge_def in_groups_def Let_def)
  ultimately show ?thesis using twice by simp
qed


end
